theory Spec2Isabelle
  imports Main "HOL-Library.Multiset" "HOL-Library.AList" "HOL-Library.Char_ord"
    "HOL-Library.List_Lexorder"
begin

section \<open>The widget page of \<^verbatim>\<open>src/app/widget/page.tsx\<close>\<close>

text \<open>
  The page is a React component: its state is a handful of \<^verbatim>\<open>useState\<close> cells, the
  session storage of the browser tab, and the callbacks that \<^verbatim>\<open>setTimeout\<close> has queued.
  Every handler runs to completion on the single UI thread and the component is rendered
  again before the next event is dispatched, so a handler is a function from the state
  before the event to the state after it.
\<close>

subsection \<open>Data\<close>

text \<open>
  \<^verbatim>\<open>Appointment\<close> and \<^verbatim>\<open>UrgentTodo\<close> are imported from \<^verbatim>\<open>@/lib/types\<close>; the fields
  are the ones the page reads (\<open>done\<close> is \<open>todo_done\<close> here, \<open>done\<close> being a keyword of
  Isabelle). Dates and start times are strings, a due time is an
  optional number of milliseconds.
\<close>

record Appointment =
  apt_id :: string
  apt_title :: string
  date :: string
  start :: string
  durationMin :: nat

datatype Priority = high | medium | low

record UrgentTodo =
  todo_id :: string
  todo_title :: string
  todo_done :: bool
  priority :: Priority
  dueAt :: "int option"

datatype Tab = upcoming | urgent

text \<open>
  The component state. \<open>timers\<close> holds the deadlines (in milliseconds on the clock
  \<open>now\<close>) of the callbacks queued by \<^verbatim>\<open>setTimeout\<close> and not yet run; all of them
  are the same closure (lines 63 to 66). \<open>console\<close> collects what \<^verbatim>\<open>console.error\<close>
  printed.
\<close>

record Widget =
  unlocked :: bool
  code :: string
  error :: bool
  tab :: Tab
  appointments :: "Appointment list"
  urgentTodos :: "UrgentTodo list"
  sessionStorage :: "(string \<times> string) list"
  timers :: "nat list"
  now :: nat
  console :: "string list"

definition CODE_LOCK :: string where
  "CODE_LOCK = ''333''"

definition STORAGE_KEY :: string where
  "STORAGE_KEY = ''psa.widget.unlocked''"

definition getItem :: "string \<Rightarrow> (string \<times> string) list \<Rightarrow> string option" where
  "getItem k st = map_of st k"

definition setItem :: "string \<Rightarrow> string \<Rightarrow> (string \<times> string) list \<Rightarrow> (string \<times> string) list" where
  "setItem k v st = AList.update k v st"

text \<open>The state of the first render: the initial values of the \<^verbatim>\<open>useState\<close> cells
  (lines 16 to 20), over whatever the session storage and the store hold.\<close>

definition initial :: "(string \<times> string) list \<Rightarrow> UrgentTodo list \<Rightarrow> Widget" where
  "initial st todos =
     \<lparr> unlocked = False, code = [], error = False, tab = upcoming, appointments = [],
       urgentTodos = todos, sessionStorage = st, timers = [], now = 0, console = [] \<rparr>"

subsection \<open>The access gate\<close>

text \<open>The mount effect, lines 22 to 28.\<close>

definition restoreFromSession :: "Widget \<Rightarrow> Widget" where
  "restoreFromSession s =
     (let stored = getItem STORAGE_KEY (sessionStorage s)
      in if stored = Some ''true'' then s\<lparr>unlocked := True\<rparr> else s)"

text \<open>\<^verbatim>\<open>handleButtonPress\<close>, lines 52 to 69. The closure reads \<open>code\<close> of the render it
  was created in; the timer is queued \<open>1000\<close> ms from now.\<close>

definition handleButtonPress :: "string \<Rightarrow> Widget \<Rightarrow> Widget" where
  "handleButtonPress digit s =
     (let newCode = code s @ digit;
          s1 = s\<lparr>code := newCode\<rparr>
      in if length newCode = 3 then
           (if newCode = CODE_LOCK then
              s1\<lparr>unlocked := True,
                 sessionStorage := setItem STORAGE_KEY ''true'' (sessionStorage s1),
                 error := False\<rparr>
            else
              s1\<lparr>error := True, timers := timers s1 @ [now s1 + 1000]\<rparr>)
         else s1)"

text \<open>The callback handed to \<^verbatim>\<open>setTimeout\<close>, lines 63 to 66.\<close>

definition timeoutCallback :: "Widget \<Rightarrow> Widget" where
  "timeoutCallback s = s\<lparr>code := [], error := False\<rparr>"

text \<open>\<^verbatim>\<open>handleClear\<close>, lines 71 to 74.\<close>

definition handleClear :: "Widget \<Rightarrow> Widget" where
  "handleClear s = s\<lparr>code := [], error := False\<rparr>"

text \<open>Time passing: the clock advances by \<open>dt\<close> and every queued callback whose
  deadline has been reached runs, once, and leaves the queue.\<close>

definition elapse :: "nat \<Rightarrow> Widget \<Rightarrow> Widget" where
  "elapse dt s =
     (let t = now s + dt;
          due = filter (\<lambda>d. d \<le> t) (timers s);
          s1 = fold (\<lambda>_. timeoutCallback) due s
      in s1\<lparr>timers := filter (\<lambda>d. \<not> d \<le> t) (timers s), now := t\<rparr>)"

subsection \<open>Numbers and \<^verbatim>\<open>Array.prototype.sort\<close>\<close>

text \<open>
  A comparator hands \<^verbatim>\<open>sort\<close> a JavaScript number. The ones of this page are
  integers, the two infinities and \<^verbatim>\<open>NaN\<close> (\<^verbatim>\<open>Infinity - Infinity\<close>); a due time is a
  whole number of milliseconds, and the sign of a difference of two such doubles is the
  sign of the difference of the integers.
\<close>

datatype number = Num int | PosInfinity | NegInfinity | NaN

fun js_minus :: "number \<Rightarrow> number \<Rightarrow> number" where
  "js_minus (Num a) (Num b) = Num (a - b)"
| "js_minus NaN _ = NaN"
| "js_minus _ NaN = NaN"
| "js_minus PosInfinity PosInfinity = NaN"
| "js_minus NegInfinity NegInfinity = NaN"
| "js_minus PosInfinity _ = PosInfinity"
| "js_minus NegInfinity _ = NegInfinity"
| "js_minus (Num a) PosInfinity = NegInfinity"
| "js_minus (Num a) NegInfinity = PosInfinity"

text \<open>ECMAScript's \<^verbatim>\<open>SortCompare\<close>: a \<^verbatim>\<open>NaN\<close> from the comparator counts as \<open>+0\<close>.\<close>

definition SortCompare :: "('a \<Rightarrow> 'a \<Rightarrow> number) \<Rightarrow> 'a \<Rightarrow> 'a \<Rightarrow> number" where
  "SortCompare comparefn x y = (case comparefn x y of NaN \<Rightarrow> Num 0 | v \<Rightarrow> v)"

fun positive :: "number \<Rightarrow> bool" where
  "positive (Num n) = (0 < n)"
| "positive PosInfinity = True"
| "positive NegInfinity = False"
| "positive NaN = False"

text \<open>
  \<^verbatim>\<open>[...xs].sort(comparefn)\<close>: the sort is stable (ECMAScript 2019), so with a
  consistent comparator its result is the one of a stable insertion sort: an element
  moves behind those that compare strictly smaller, and stays in front of its equals
  that came later. The copy \<^verbatim>\<open>[...xs]\<close> leaves the argument as it is.
\<close>

fun sort_insert :: "('a \<Rightarrow> 'a \<Rightarrow> number) \<Rightarrow> 'a \<Rightarrow> 'a list \<Rightarrow> 'a list" where
  "sort_insert comparefn x [] = [x]"
| "sort_insert comparefn x (y # ys) =
     (if positive (SortCompare comparefn x y) then y # sort_insert comparefn x ys
      else x # y # ys)"

fun array_sort :: "('a \<Rightarrow> 'a \<Rightarrow> number) \<Rightarrow> 'a list \<Rightarrow> 'a list" where
  "array_sort comparefn [] = []"
| "array_sort comparefn (x # xs) = sort_insert comparefn x (array_sort comparefn xs)"

text \<open>
  \<^verbatim>\<open>a.localeCompare(b)\<close> is the collation of the platform's locale, which is not part
  of the page: the comparator and the view below take it as the parameter
  \<open>localeCompare\<close>. The \<open>\<ge>\<close> of line 44, on the other hand, is the order of the code
  units on every string.
\<close>

type_synonym collation = "string \<Rightarrow> string \<Rightarrow> number"

subsection \<open>Appointments\<close>

text \<open>
  What the \<^verbatim>\<open>await\<close>s of \<^verbatim>\<open>loadAppointments\<close> can give: \<^verbatim>\<open>fetch\<close> rejects, \<^verbatim>\<open>res.json()\<close>
  rejects, or there is a value \<^verbatim>\<open>data\<close>, of which the code looks at \<^verbatim>\<open>data?.ok\<close> (truthy
  or not) and at \<^verbatim>\<open>data.items\<close> (an array or not).
\<close>

datatype items_field = NotAnArray | Items "Appointment list"

datatype json = JsonNull | JsonObject bool items_field

datatype fetch_outcome = FetchRejects | JsonRejects | Resolves json

datatype exn = TypeError | SyntaxError

text \<open>The \<^verbatim>\<open>try\<close> block, lines 39 to 46; \<open>today\<close> is
  \<^verbatim>\<open>new Date().toISOString().split('T')[0]\<close> when the response is handled.\<close>

fun loadAppointments_try :: "fetch_outcome \<Rightarrow> string \<Rightarrow> Widget \<Rightarrow> exn + Widget" where
  "loadAppointments_try FetchRejects today s = Inl TypeError"
| "loadAppointments_try JsonRejects today s = Inl SyntaxError"
| "loadAppointments_try (Resolves JsonNull) today s = Inr s"
| "loadAppointments_try (Resolves (JsonObject ok NotAnArray)) today s = Inr s"
| "loadAppointments_try (Resolves (JsonObject ok (Items items))) today s =
     (if ok then
        (let upcoming = filter (\<lambda>apt. date apt \<ge> today) items
         in Inr (s\<lparr>appointments := upcoming\<rparr>))
      else Inr s)"

text \<open>\<^verbatim>\<open>loadAppointments\<close>, lines 37 to 50: the settled promise, \<open>Inl\<close> a rejection.\<close>

definition loadAppointments :: "fetch_outcome \<Rightarrow> string \<Rightarrow> Widget \<Rightarrow> exn + Widget" where
  "loadAppointments outcome today s =
     (case loadAppointments_try outcome today s of
        Inl err \<Rightarrow> Inr (s\<lparr>console := console s @ [''Failed to load appointments:'']\<rparr>)
      | Inr s' \<Rightarrow> Inr s')"

text \<open>The comparator of lines 184 to 188 and the constant \<^verbatim>\<open>sorted\<close> of the view.\<close>

definition compareAppointments :: "collation \<Rightarrow> Appointment \<Rightarrow> Appointment \<Rightarrow> number" where
  "compareAppointments localeCompare a b =
     (let dateCompare = localeCompare (date a) (date b)
      in if dateCompare \<noteq> Num 0 then dateCompare
         else localeCompare (start a) (start b))"

definition sortedAppointments :: "collation \<Rightarrow> Appointment list \<Rightarrow> Appointment list" where
  "sortedAppointments localeCompare appts =
     array_sort (compareAppointments localeCompare) appts"

text \<open>The rows of \<^verbatim>\<open>UpcomingAppointmentsView\<close>, lines 211 to 229: each appointment
  with its date label; \<open>today\<close> is the date at render time.\<close>

datatype date_label = Today | OtherDay string

definition UpcomingAppointmentsView ::
  "collation \<Rightarrow> string \<Rightarrow> Appointment list \<Rightarrow> (Appointment \<times> date_label) list" where
  "UpcomingAppointmentsView localeCompare today appts =
     map (\<lambda>apt. (apt, if date apt = today then Today else OtherDay (date apt)))
       (sortedAppointments localeCompare appts)"

subsection \<open>Urgent todos\<close>

fun priorityRank :: "Priority \<Rightarrow> int" where
  "priorityRank high = 0"
| "priorityRank medium = 1"
| "priorityRank low = 2"

text \<open>The comparator of lines 248 to 255.\<close>

definition compareUrgent :: "UrgentTodo \<Rightarrow> UrgentTodo \<Rightarrow> number" where
  "compareUrgent a b =
     (let rankDiff = priorityRank (priority a) - priorityRank (priority b)
      in if rankDiff \<noteq> 0 then Num rankDiff
         else
           (let dueA = (case dueAt a of None \<Rightarrow> PosInfinity | Some t \<Rightarrow> Num t);
                dueB = (case dueAt b of None \<Rightarrow> PosInfinity | Some t \<Rightarrow> Num t)
            in js_minus dueA dueB))"

text \<open>\<^verbatim>\<open>UrgentTodosView\<close>, lines 238 to 294: \<open>None\<close> is the placeholder
  ``No urgent todos'', otherwise the rows in their order.\<close>

definition UrgentTodosView :: "UrgentTodo list \<Rightarrow> UrgentTodo list option" where
  "UrgentTodosView todos =
     (if length todos = 0 then None else Some (array_sort compareUrgent todos))"

text \<open>Line 141.\<close>

definition upcomingUrgent :: "Widget \<Rightarrow> UrgentTodo list" where
  "upcomingUrgent s = filter (\<lambda>t. \<not> todo_done t) (urgentTodos s)"

text \<open>Modelled from the spec: \<^verbatim>\<open>toggleUrgentDone\<close> of the store (\<^verbatim>\<open>@/lib/store\<close>), which
  ``flips completion state'' of the todo with the given id.\<close>

definition toggleUrgentDone :: "string \<Rightarrow> UrgentTodo list \<Rightarrow> UrgentTodo list" where
  "toggleUrgentDone i todos =
     map (\<lambda>t. if todo_id t = i then t\<lparr>todo_done := \<not> todo_done t\<rparr> else t) todos"

subsection \<open>Events\<close>

text \<open>
  What can happen to the mounted page. The lock screen (lines 77 to 138) is all that is
  rendered while \<open>unlocked\<close> is false, the tabs and lists (lines 143 to 178) once it is
  true, so a button can be clicked only in the state that renders it; the ten digit
  buttons pass \<^verbatim>\<open>String(num)\<close> and are \<^verbatim>\<open>disabled\<close> when \<^verbatim>\<open>code.length >= 3\<close>
  (lines 109 and 123), and a disabled button dispatches no click. The fetch is started
  by the effect of lines 30 to 35, when \<open>unlocked\<close> is true.
\<close>

datatype Event =
    Mount
  | PressDigit nat
  | PressClear
  | Elapse nat
  | SelectTab Tab
  | AppointmentsSettled fetch_outcome string
  | UrgentTodosLoaded "UrgentTodo list"
  | ToggleUrgent string

definition String_num :: "nat \<Rightarrow> string" where
  "String_num num = [''0123456789'' ! num]"

fun step :: "Event \<Rightarrow> Widget \<Rightarrow> Widget" where
  "step Mount s = restoreFromSession s"
| "step (PressDigit num) s =
     (if \<not> unlocked s \<and> num < 10 \<and> \<not> length (code s) \<ge> 3
      then handleButtonPress (String_num num) s else s)"
| "step PressClear s = (if \<not> unlocked s then handleClear s else s)"
| "step (Elapse dt) s = elapse dt s"
| "step (SelectTab t) s = (if unlocked s then s\<lparr>tab := t\<rparr> else s)"
| "step (AppointmentsSettled outcome today) s =
     (if unlocked s then
        (case loadAppointments outcome today s of Inr s' \<Rightarrow> s' | Inl err \<Rightarrow> s)
      else s)"
| "step (UrgentTodosLoaded todos) s = s\<lparr>urgentTodos := todos\<rparr>"
| "step (ToggleUrgent i) s =
     (if unlocked s then s\<lparr>urgentTodos := toggleUrgentDone i (urgentTodos s)\<rparr> else s)"

definition run :: "Event list \<Rightarrow> Widget \<Rightarrow> Widget" where
  "run evs s = fold step evs s"

subsection \<open>The orders the lists are read against\<close>

text \<open>By date, and by start time within a date; the strings in the order of their
  code units.\<close>

definition appointment_le :: "Appointment \<Rightarrow> Appointment \<Rightarrow> bool" where
  "appointment_le a b = (date a < date b \<or> (date a = date b \<and> start a \<le> start b))"

text \<open>A due time against another, a missing one above every defined one.\<close>

fun due_le :: "int option \<Rightarrow> int option \<Rightarrow> bool" where
  "due_le _ None = True"
| "due_le None (Some tb) = False"
| "due_le (Some ta) (Some tb) = (ta \<le> tb)"

definition urgent_le :: "UrgentTodo \<Rightarrow> UrgentTodo \<Rightarrow> bool" where
  "urgent_le a b =
     (priorityRank (priority a) < priorityRank (priority b) \<or>
      (priorityRank (priority a) = priorityRank (priority b) \<and> due_le (dueAt a) (dueAt b)))"

text \<open>
  The formats of the strings. A pattern stands for the strings of its length that have
  a digit wherever the pattern has \<open>0\<close> and the character of the pattern elsewhere:
  \<^verbatim>\<open>YYYY-MM-DD\<close>, the date part of \<^verbatim>\<open>toISOString()\<close> (line 43) and the ISO calendar
  date of an appointment, and the zero-padded \<^verbatim>\<open>HH:MM\<close> of a start time.
\<close>

definition is_digit :: "char \<Rightarrow> bool" where
  "is_digit c = (CHR ''0'' \<le> c \<and> c \<le> CHR ''9'')"

fun matches :: "string \<Rightarrow> string \<Rightarrow> bool" where
  "matches [] [] = True"
| "matches (c # cs) (p # ps) =
     ((if p = CHR ''0'' then is_digit c else c = p) \<and> matches cs ps)"
| "matches _ _ = False"

definition is_iso_date :: "string \<Rightarrow> bool" where
  "is_iso_date s = matches s ''0000-00-00''"

definition is_clock_time :: "string \<Rightarrow> bool" where
  "is_clock_time s = matches s ''00:00''"

definition well_formed :: "Appointment \<Rightarrow> bool" where
  "well_formed apt = (is_iso_date (date apt) \<and> is_clock_time (start apt))"

text \<open>What such a string denotes: the number a run of digits writes, the calendar
  date (year, month, day) and the time of day (hour, minute).\<close>

definition digitVal :: "char \<Rightarrow> nat" where
  "digitVal c = of_char c - 48"

definition decimal :: "string \<Rightarrow> nat" where
  "decimal s = foldl (\<lambda>n c. 10 * n + digitVal c) 0 s"

definition calendarDate :: "string \<Rightarrow> nat \<times> nat \<times> nat" where
  "calendarDate s = (decimal (take 4 s), decimal (take 2 (drop 5 s)), decimal (take 2 (drop 8 s)))"

definition timeOfDay :: "string \<Rightarrow> nat \<times> nat" where
  "timeOfDay s = (decimal (take 2 s), decimal (take 2 (drop 3 s)))"

fun calendar_lt :: "nat \<times> nat \<times> nat \<Rightarrow> nat \<times> nat \<times> nat \<Rightarrow> bool" where
  "calendar_lt (y, m, d) (y', m', d') = (y < y' \<or> (y = y' \<and> (m < m' \<or> (m = m' \<and> d < d'))))"

definition calendar_le :: "nat \<times> nat \<times> nat \<Rightarrow> nat \<times> nat \<times> nat \<Rightarrow> bool" where
  "calendar_le x y = (calendar_lt x y \<or> x = y)"

fun time_lt :: "nat \<times> nat \<Rightarrow> nat \<times> nat \<Rightarrow> bool" where
  "time_lt (h, m) (h', m') = (h < h' \<or> (h = h' \<and> m < m'))"

definition time_le :: "nat \<times> nat \<Rightarrow> nat \<times> nat \<Rightarrow> bool" where
  "time_le x y = (time_lt x y \<or> x = y)"

text \<open>An appointment is due no later than another: an earlier calendar date, or the
  same date and no later a start.\<close>

definition upcoming_le :: "Appointment \<Rightarrow> Appointment \<Rightarrow> bool" where
  "upcoming_le a b =
     (calendar_lt (calendarDate (date a)) (calendarDate (date b)) \<or>
      (calendarDate (date a) = calendarDate (date b) \<and>
       time_le (timeOfDay (start a)) (timeOfDay (start b))))"

text \<open>
  What is taken of the platform's collation: two strings of one format, that is of equal
  length and differing only where both have a digit, are collated by their first
  difference, digit against digit. Nothing is taken about any other pair of strings.
\<close>

definition same_shape :: "string \<Rightarrow> string \<Rightarrow> bool" where
  "same_shape a b = list_all2 (\<lambda>c c'. (is_digit c \<and> is_digit c') \<or> c = c') a b"

definition collates_digits :: "collation \<Rightarrow> bool" where
  "collates_digits localeCompare =
     (\<forall>a b. same_shape a b \<longrightarrow>
        positive (localeCompare a b) = (b < a) \<and> (localeCompare a b = Num 0) = (a = b))"

text \<open>
  A collation for the examples, in the manner of the root collation of the platforms on
  ASCII: punctuation before digits before letters, so that \<open>1:00\<close> is in front of
  \<open>10:00\<close>, which the order of the code units has behind it.
\<close>

definition collationWeight :: "char \<Rightarrow> nat" where
  "collationWeight c =
     (if is_digit c then 256 + of_char c
      else if (CHR ''A'' \<le> c \<and> c \<le> CHR ''Z'') \<or> (CHR ''a'' \<le> c \<and> c \<le> CHR ''z'')
      then 512 + of_char c
      else of_char c)"

definition punctuationFirst :: collation where
  "punctuationFirst a b =
     (let ka = map collationWeight a; kb = map collationWeight b
      in if ka < kb then Num (- 1) else if ka = kb then Num 0 else Num 1)"

text \<open>The outcomes of the fetch that are failures: a rejected \<^verbatim>\<open>fetch\<close>, a body that
  is not JSON, a body that is \<^verbatim>\<open>null\<close>, one whose \<^verbatim>\<open>ok\<close> is not truthy, one whose
  \<^verbatim>\<open>items\<close> is not an array.\<close>

fun fetch_failed :: "fetch_outcome \<Rightarrow> bool" where
  "fetch_failed FetchRejects = True"
| "fetch_failed JsonRejects = True"
| "fetch_failed (Resolves JsonNull) = True"
| "fetch_failed (Resolves (JsonObject ok NotAnArray)) = True"
| "fetch_failed (Resolves (JsonObject ok (Items items))) = (\<not> ok)"

section \<open>Properties\<close>

subsection \<open>Auxiliary facts\<close>

lemmas gate_defs = handleButtonPress_def handleClear_def timeoutCallback_def elapse_def
  restoreFromSession_def CODE_LOCK_def STORAGE_KEY_def getItem_def setItem_def String_num_def
  run_def initial_def Let_def

lemma fold_timeoutCallback:
  "fold (\<lambda>_. timeoutCallback) ds s = (if ds = [] then s else timeoutCallback s)"
  by (induction ds arbitrary: s) (auto simp: timeoutCallback_def)

lemma length_String_num: "length (String_num num) = 1"
  by (simp add: String_num_def)

lemma loadAppointments_try_gate:
  "loadAppointments_try outcome today s = Inr s' \<Longrightarrow>
     unlocked s' = unlocked s \<and> code s' = code s \<and> error s' = error s \<and> timers s' = timers s"
  by (induction outcome today s rule: loadAppointments_try.induct) (auto split: if_splits)

lemma loadAppointments_gate:
  "loadAppointments outcome today s = Inr s' \<Longrightarrow>
     unlocked s' = unlocked s \<and> code s' = code s \<and> error s' = error s \<and> timers s' = timers s"
  by (auto simp: loadAppointments_def split: sum.splits dest: loadAppointments_try_gate)

lemma loadAppointments_fulfils: "\<exists>s'. loadAppointments outcome today s = Inr s'"
  by (simp add: loadAppointments_def split: sum.splits)

lemma step_code_le:
  assumes "length (code s) \<le> 3"
  shows "length (code (step e s)) \<le> 3"
proof (cases e)
  case (PressDigit num)
  with assms show ?thesis
    by (auto simp: handleButtonPress_def Let_def length_String_num CODE_LOCK_def)
next
  case (AppointmentsSettled outcome today)
  with assms show ?thesis
    by (auto split: sum.splits dest: loadAppointments_gate)
next
  case (Elapse dt)
  with assms show ?thesis
    by (simp add: elapse_def Let_def fold_timeoutCallback timeoutCallback_def)
qed (use assms in \<open>auto simp: restoreFromSession_def Let_def handleClear_def\<close>)

lemma run_code_le: "length (code s) \<le> 3 \<Longrightarrow> length (code (run evs s)) \<le> 3"
  unfolding run_def by (induction evs arbitrary: s) (simp_all add: step_code_le)

lemma step_unlocked:
  assumes "unlocked s"
  shows "unlocked (step e s)"
proof (cases e)
  case (AppointmentsSettled outcome today)
  with assms show ?thesis
    by (auto split: sum.splits dest: loadAppointments_gate)
next
  case (Elapse dt)
  with assms show ?thesis
    by (simp add: elapse_def Let_def fold_timeoutCallback timeoutCallback_def)
qed (use assms in \<open>auto simp: restoreFromSession_def Let_def\<close>)

subsection \<open>The access gate\<close>

text \<open>
  Claim C1. On the lock screen, with two digits entered, the third digit settles the
  entry. If the three digits are the passcode the page is unlocked, the session storage
  holds \<open>''true''\<close> under the key, and the error flag is false. Otherwise the page stays
  locked with the error flag set and the three digits still shown, and once 1000 ms (or
  more) have passed the queued callback has emptied the entry and cleared the flag in
  one go.
\<close>

theorem third_digit_settles_entry:
  assumes "\<not> unlocked s" and "length (code s) = 2" and "num < 10" and "1000 \<le> dt"
  shows "let s' = step (PressDigit num) s in
     (if code s @ String_num num = CODE_LOCK
      then unlocked s' \<and> getItem STORAGE_KEY (sessionStorage s') = Some ''true'' \<and> \<not> error s'
      else \<not> unlocked s' \<and> error s' \<and> code s' = code s @ String_num num \<and>
        (let s'' = step (Elapse dt) s' in \<not> unlocked s'' \<and> code s'' = [] \<and> \<not> error s''))"
  using assms
  by (auto simp: Let_def handleButtonPress_def String_num_def getItem_def setItem_def
      elapse_def fold_timeoutCallback timeoutCallback_def update_Some_unfold)

theorem third_digit_settles_entry_witness:
  "let s = run [PressDigit 3, PressDigit 3] (initial [] []);
       s' = step (PressDigit 3) s;
       t = run [PressDigit 3, PressDigit 4] (initial [] []);
       t' = step (PressDigit 5) t;
       t'' = step (Elapse 1000) t'
   in \<not> unlocked s \<and> length (code s) = 2 \<and> \<not> unlocked t \<and> length (code t) = 2 \<and>
      unlocked s' \<and> getItem STORAGE_KEY (sessionStorage s') = Some ''true'' \<and> \<not> error s' \<and>
      \<not> unlocked t' \<and> error t' \<and> code t' = ''345'' \<and>
      \<not> unlocked t'' \<and> code t'' = [] \<and> \<not> error t''"
  using third_digit_settles_entry [of "run [PressDigit 3, PressDigit 3] (initial [] [])" 3 1000]
    third_digit_settles_entry [of "run [PressDigit 3, PressDigit 4] (initial [] [])" 5 1000]
  by (simp add: gate_defs)

text \<open>
  Claim C2. In every state that a sequence of events reaches from the first render,
  whatever the session storage and the store hold, the entry has at most three
  characters; and a click on a digit button when the entry has three characters
  changes nothing at all, the buttons being disabled then.
\<close>

theorem entry_length_bounded:
  "length (code (run evs (initial st todos))) \<le> 3 \<and>
   (\<forall>s num. length (code s) = 3 \<longrightarrow> step (PressDigit num) s = s)"
  by (simp add: run_code_le initial_def)

theorem entry_length_bounded_witness:
  "let evs = [PressDigit 1, PressDigit 2, PressDigit 3];
       s = run evs (initial [] [])
   in length (code s) \<le> 3 \<and> length (code s) = 3 \<and> code s = ''123'' \<and>
      step (PressDigit 4) s = s \<and> code (step (PressDigit 4) s) = ''123''"
  using entry_length_bounded [of "[PressDigit 1, PressDigit 2, PressDigit 3]" "[]" "[]"]
  by (simp add: gate_defs)

text \<open>
  Claim C6 as stated fails. Three wrong digits queue the callback for time 1000; the
  user clears at time 200 and enters \<open>33\<close>; at time 1000 the callback of the
  abandoned attempt runs and empties that newer entry, so the next \<open>3\<close> does not
  complete the passcode.
\<close>

theorem stale_timer_empties_newer_entry:
  "let s1 = run [PressDigit 1, PressDigit 1, PressDigit 1] (initial [] []);
       s2 = run [Elapse 200, PressClear, PressDigit 3, PressDigit 3] s1;
       s3 = step (Elapse 800) s2
   in error s1 \<and> timers s1 = [1000] \<and> now s2 = 200 \<and> code s2 = ''33'' \<and> timers s2 = [1000] \<and>
      code s3 = [] \<and> code (step (PressDigit 3) s3) = ''3'' \<and> \<not> unlocked (step (PressDigit 3) s3)"
  by (simp add: gate_defs)

text \<open>
  Claim C6, amended. The timer is fire and forget: no handle is kept and nothing
  cancels it. A click on Clear leaves every queued callback queued, a digit click
  removes none, and when the deadline of a queued callback is reached the entry is
  emptied and the error flag cleared, whatever has been entered in between.
\<close>

theorem clear_leaves_timer_armed:
  "timers (step PressClear s) = timers s \<and>
   set (timers s) \<subseteq> set (timers (step (PressDigit num) s)) \<and>
   (d \<in> set (timers s) \<and> d \<le> now s + dt \<longrightarrow>
      code (step (Elapse dt) s) = [] \<and> \<not> error (step (Elapse dt) s))"
  by (auto simp: handleClear_def handleButtonPress_def Let_def elapse_def
      fold_timeoutCallback timeoutCallback_def filter_empty_conv)

theorem clear_leaves_timer_armed_witness:
  "let s1 = run [PressDigit 7, PressDigit 8, PressDigit 9, Elapse 400] (initial [] []);
       s2 = step PressClear s1;
       s3 = step (PressDigit 3) s2
   in timers s1 = [1000] \<and> timers s2 = [1000] \<and> timers s3 = [1000] \<and> code s3 = ''3'' \<and>
      1000 \<in> set (timers s3) \<and> 1000 \<le> now s3 + 600 \<and>
      code (step (Elapse 600) s3) = [] \<and> \<not> error (step (Elapse 600) s3)"
  using clear_leaves_timer_armed [of
      "run [PressDigit 7, PressDigit 8, PressDigit 9, Elapse 400, PressClear, PressDigit 3]
         (initial [] [])" 3 1000 600]
  by (simp add: gate_defs)

text \<open>
  Claim C7 as stated fails: after the third \<open>3\<close> the page is unlocked and the entry
  still holds the three digits.
\<close>

theorem match_keeps_entry:
  "let s = run [PressDigit 3, PressDigit 3] (initial [] []);
       s' = step (PressDigit 3) s
   in length (code s) = 2 \<and> code s @ String_num 3 = CODE_LOCK \<and> unlocked s' \<and> code s' \<noteq> []"
  by (simp add: gate_defs)

text \<open>
  Claim C7, amended. When the third digit completes the passcode the page is unlocked
  and the entry is left holding the passcode; the successful branch writes
  \<open>unlocked\<close>, the session storage and \<open>error\<close>, and not the entry.
\<close>

theorem match_entry_is_passcode:
  assumes "\<not> unlocked s" and "num < 10" and "length (code s) = 2"
    and "code s @ String_num num = CODE_LOCK"
  shows "unlocked (step (PressDigit num) s) \<and> code (step (PressDigit num) s) = CODE_LOCK"
  using assms by (simp add: handleButtonPress_def Let_def length_String_num CODE_LOCK_def)

theorem match_entry_is_passcode_witness:
  "let s = run [PressDigit 9, PressClear, PressDigit 3, PressDigit 3] (initial [] [])
   in \<not> unlocked s \<and> (3::nat) < 10 \<and> length (code s) = 2 \<and> code s @ String_num 3 = CODE_LOCK \<and>
      unlocked (step (PressDigit 3) s) \<and> code (step (PressDigit 3) s) = CODE_LOCK"
  using match_entry_is_passcode
    [of "run [PressDigit 9, PressClear, PressDigit 3, PressDigit 3] (initial [] [])" 3]
  by (simp add: gate_defs)

text \<open>
  Claim C8. The mount effect, run on the state of the first render, gives the unlocked
  state exactly when the session storage holds the marker, that is the string
  \<open>''true''\<close> under the key, which is what a successful entry writes; with no entry
  under the key, or any other string there, the page stays locked.
\<close>

theorem restore_unlocked_iff_marker:
  "unlocked (restoreFromSession (initial st todos)) = (getItem STORAGE_KEY st = Some ''true'') \<and>
   step Mount (initial st todos) = restoreFromSession (initial st todos)"
  by (simp add: restoreFromSession_def initial_def)

text \<open>
  Claim C9. Once the page is unlocked, no sequence of events (mount, digit and Clear
  clicks, time passing, tab switches, fetch outcomes, store updates, toggles) locks it
  again.
\<close>

theorem unlocked_is_monotonic: "unlocked s \<Longrightarrow> unlocked (run evs s)"
  unfolding run_def by (induction evs arbitrary: s) (simp_all add: step_unlocked)

theorem unlocked_is_monotonic_witness:
  "let s = run [PressDigit 3, PressDigit 3, PressDigit 3] (initial [] [])
   in unlocked s \<and>
      unlocked (run [PressDigit 1, PressClear, Elapse 5000, SelectTab urgent,
                     AppointmentsSettled FetchRejects ''2024-06-10'', UrgentTodosLoaded [],
                     ToggleUrgent ''a'', Mount] s)"
  using unlocked_is_monotonic [of "run [PressDigit 3, PressDigit 3, PressDigit 3] (initial [] [])"
      "[PressDigit 1, PressClear, Elapse 5000, SelectTab urgent,
        AppointmentsSettled FetchRejects ''2024-06-10'', UrgentTodosLoaded [],
        ToggleUrgent ''a'', Mount]"]
  by (simp add: gate_defs loadAppointments_def toggleUrgentDone_def)

subsection \<open>Sorting with a comparator\<close>

lemma mset_sort_insert: "mset (sort_insert c x ys) = add_mset x (mset ys)"
  by (induction ys) simp_all

lemma mset_array_sort: "mset (array_sort c xs) = mset xs"
  by (induction xs) (simp_all add: mset_sort_insert)

lemma set_sort_insert: "set (sort_insert c x ys) = insert x (set ys)"
  by (induction ys) auto

lemma set_array_sort: "set (array_sort c xs) = set xs"
  by (induction xs) (simp_all add: set_sort_insert)

text \<open>A comparator that is consistent with a transitive relation \<open>R\<close> (what compares
  greater is behind, what does not is in front) gives a list sorted by \<open>R\<close>.\<close>

lemma sorted_sort_insert:
  assumes gt: "\<And>x y. positive (SortCompare c x y) \<Longrightarrow> R y x"
    and le: "\<And>x y. \<not> positive (SortCompare c x y) \<Longrightarrow> R x y"
    and tr: "\<And>x y z. R x y \<Longrightarrow> R y z \<Longrightarrow> R x z"
    and srt: "sorted_wrt R ys"
  shows "sorted_wrt R (sort_insert c x ys)"
  using srt
proof (induction ys)
  case Nil
  show ?case by simp
next
  case (Cons y ys)
  show ?case
  proof (cases "positive (SortCompare c x y)")
    case True
    with Cons gt show ?thesis
      by (auto simp: set_sort_insert)
  next
    case False
    then have xy: "R x y" by (rule le)
    with Cons.prems have "\<forall>z\<in>set ys. R x z"
      by (auto intro: tr)
    with False xy Cons.prems show ?thesis by simp
  qed
qed

lemma sorted_array_sort:
  assumes "\<And>x y. positive (SortCompare c x y) \<Longrightarrow> R y x"
    and "\<And>x y. \<not> positive (SortCompare c x y) \<Longrightarrow> R x y"
    and "\<And>x y z. R x y \<Longrightarrow> R y z \<Longrightarrow> R x z"
  shows "sorted_wrt R (array_sort c xs)"
  by (induction xs) (simp_all add: sorted_sort_insert [where R = R] assms)

text \<open>The same when the comparator is consistent on the elements of a set only.\<close>

lemma sorted_sort_insert_on:
  assumes gt: "\<And>x y. x \<in> S \<Longrightarrow> y \<in> S \<Longrightarrow> positive (SortCompare c x y) \<Longrightarrow> R y x"
    and le: "\<And>x y. x \<in> S \<Longrightarrow> y \<in> S \<Longrightarrow> \<not> positive (SortCompare c x y) \<Longrightarrow> R x y"
    and tr: "\<And>x y z. R x y \<Longrightarrow> R y z \<Longrightarrow> R x z"
    and xS: "x \<in> S"
  shows "set ys \<subseteq> S \<Longrightarrow> sorted_wrt R ys \<Longrightarrow> sorted_wrt R (sort_insert c x ys)"
proof (induction ys)
  case Nil
  show ?case by simp
next
  case (Cons y ys)
  from Cons.prems have yS: "y \<in> S" and sub: "set ys \<subseteq> S" by simp_all
  show ?case
  proof (cases "positive (SortCompare c x y)")
    case True
    then have "R y x" using xS yS by (rule gt [rotated 2])
    with True Cons sub show ?thesis
      by (auto simp: set_sort_insert)
  next
    case False
    then have xy: "R x y" using xS yS by (rule le [rotated 2])
    with Cons.prems have "\<forall>z\<in>set ys. R x z"
      by (auto intro: tr)
    with False xy Cons.prems show ?thesis by simp
  qed
qed

lemma sorted_array_sort_on:
  assumes "\<And>x y. x \<in> S \<Longrightarrow> y \<in> S \<Longrightarrow> positive (SortCompare c x y) \<Longrightarrow> R y x"
    and "\<And>x y. x \<in> S \<Longrightarrow> y \<in> S \<Longrightarrow> \<not> positive (SortCompare c x y) \<Longrightarrow> R x y"
    and "\<And>x y z. R x y \<Longrightarrow> R y z \<Longrightarrow> R x z"
  shows "set xs \<subseteq> S \<Longrightarrow> sorted_wrt R (array_sort c xs)"
proof (induction xs)
  case Nil
  show ?case by simp
next
  case (Cons x xs)
  then have "sorted_wrt R (array_sort c xs)" and "x \<in> S" and "set (array_sort c xs) \<subseteq> S"
    by (simp_all add: set_array_sort)
  then show ?case
    using sorted_sort_insert_on [of S c R x "array_sort c xs"] assms by simp
qed

lemma positive_SortCompare: "positive (SortCompare c x y) = positive (c x y)"
  by (cases "c x y") (simp_all add: SortCompare_def)

lemma positive_compareUrgent:
  "positive (SortCompare compareUrgent a b) =
     (priorityRank (priority b) < priorityRank (priority a) \<or>
      (priorityRank (priority a) = priorityRank (priority b) \<and> \<not> due_le (dueAt a) (dueAt b)))"
  by (cases "dueAt a"; cases "dueAt b")
    (auto simp: SortCompare_def compareUrgent_def Let_def)

lemma due_le_trans: "due_le a b \<Longrightarrow> due_le b c \<Longrightarrow> due_le a c"
  by (cases a; cases b; cases c) auto

lemma due_le_total: "\<not> due_le a b \<Longrightarrow> due_le b a"
  by (cases a; cases b) auto

lemma sorted_urgent: "sorted_wrt urgent_le (array_sort compareUrgent todos)"
proof (rule sorted_array_sort)
  fix x y z :: UrgentTodo
  show "positive (SortCompare compareUrgent x y) \<Longrightarrow> urgent_le y x"
    by (auto simp: positive_compareUrgent urgent_le_def dest: due_le_total)
  show "\<not> positive (SortCompare compareUrgent x y) \<Longrightarrow> urgent_le x y"
    by (auto simp: positive_compareUrgent urgent_le_def)
  show "urgent_le x y \<Longrightarrow> urgent_le y z \<Longrightarrow> urgent_le x z"
    by (auto simp: urgent_le_def dest: due_le_trans)
qed

subsection \<open>Strings of one format compare as what they denote\<close>

lemma matches_Cons2:
  "matches s (p # ps) =
     (\<exists>c cs. s = c # cs \<and> (if p = CHR ''0'' then is_digit c else c = p) \<and> matches cs ps)"
  by (cases s) simp_all

lemma matches_Nil2: "matches s [] = (s = [])"
  by (cases s) simp_all

lemma matches_same_shape: "matches a p \<Longrightarrow> matches b p \<Longrightarrow> same_shape a b"
  unfolding same_shape_def
proof (induction a p arbitrary: b rule: matches.induct)
  case 1
  then show ?case by (simp add: matches_Nil2)
next
  case (2 c cs p ps)
  from "2.prems"(2) obtain d ds where b: "b = d # ds"
    and d: "if p = CHR ''0'' then is_digit d else d = p" and ds: "matches ds ps"
    by (auto simp: matches_Cons2)
  from "2.prems"(1) have c: "if p = CHR ''0'' then is_digit c else c = p" and cs: "matches cs ps"
    by simp_all
  from c d have "(is_digit c \<and> is_digit d) \<or> c = d" by (auto split: if_splits)
  with "2.IH" [OF cs ds] b show ?case by simp
qed simp_all

lemma digitVal_less: "is_digit c \<Longrightarrow> is_digit d \<Longrightarrow> (digitVal c < digitVal d) = (c < d)"
  by (auto simp: is_digit_def digitVal_def less_char_def less_eq_char_def)

lemma digitVal_eq: "is_digit c \<Longrightarrow> is_digit d \<Longrightarrow> (digitVal c = digitVal d) = (c = d)"
proof
  assume dg: "is_digit c" "is_digit d" and eq: "digitVal c = digitVal d"
  from dg have "48 \<le> (of_char c :: nat)" "48 \<le> (of_char d :: nat)"
    by (simp_all add: is_digit_def less_eq_char_def)
  with eq have "(of_char c :: nat) = of_char d"
    unfolding digitVal_def by arith
  then show "c = d" by simp
qed simp

lemma digitVal_bound: "is_digit c \<Longrightarrow> digitVal c < 10"
  by (auto simp: is_digit_def digitVal_def less_eq_char_def)


text \<open>Runs of digits of one length compare as the numbers they write.\<close>

lemma foldl_decimal_less:
  assumes "length a = length b" and "list_all is_digit a" and "list_all is_digit b"
  shows "(foldl (\<lambda>n c. 10 * n + digitVal c) n a < foldl (\<lambda>n c. 10 * n + digitVal c) n' b) =
           (n < n' \<or> (n = n' \<and> a < b)) \<and>
         (foldl (\<lambda>n c. 10 * n + digitVal c) n a = foldl (\<lambda>n c. 10 * n + digitVal c) n' b) =
           (n = n' \<and> a = b)"
  using assms
proof (induction a b arbitrary: n n' rule: list_induct2)
  case Nil
  show ?case by simp
next
  case (Cons c cs d ds)
  then have dg: "is_digit c" "is_digit d" and rest: "list_all is_digit cs" "list_all is_digit ds"
    by simp_all
  from dg have bc: "digitVal c < 10" and bd: "digitVal d < 10"
    by (simp_all add: digitVal_bound)
  have "(10 * n + digitVal c < 10 * n' + digitVal d) =
      (n < n' \<or> (n = n' \<and> digitVal c < digitVal d))"
    using bc bd by arith
  then have step_less: "(10 * n + digitVal c < 10 * n' + digitVal d) =
      (n < n' \<or> (n = n' \<and> c < d))"
    by (simp add: digitVal_less [OF dg])
  have "(10 * n + digitVal c = 10 * n' + digitVal d) = (n = n' \<and> digitVal c = digitVal d)"
    using bc bd by arith
  then have step_eq: "(10 * n + digitVal c = 10 * n' + digitVal d) = (n = n' \<and> c = d)"
    by (simp add: digitVal_eq [OF dg])
  from Cons.IH [OF rest, of "10 * n + digitVal c" "10 * n' + digitVal d"]
  show ?case
    by (simp add: step_less step_eq) blast
qed

lemma decimal_less:
  "length a = length b \<Longrightarrow> list_all is_digit a \<Longrightarrow> list_all is_digit b \<Longrightarrow>
     (decimal a < decimal b) = (a < b)"
  using foldl_decimal_less [of a b 0 0] by (simp add: decimal_def)

lemma decimal_eq:
  "length a = length b \<Longrightarrow> list_all is_digit a \<Longrightarrow> list_all is_digit b \<Longrightarrow>
     (decimal a = decimal b) = (a = b)"
  using foldl_decimal_less [of a b 0 0] by (simp add: decimal_def)

lemma append_less_append:
  "length a = length a' \<Longrightarrow> (a @ (b::string) < a' @ b') = (a < a' \<or> (a = a' \<and> b < b'))"
  by (induction a a' rule: list_induct2) auto

lemma iso_date_parts:
  assumes "is_iso_date s"
  obtains Y M D where "s = Y @ CHR ''-'' # M @ CHR ''-'' # D"
    and "length Y = 4" and "length M = 2" and "length D = 2"
    and "list_all is_digit Y" and "list_all is_digit M" and "list_all is_digit D"
proof -
  from assms obtain y1 y2 y3 y4 m1 m2 d1 d2 where
    s: "s = [y1, y2, y3, y4, CHR ''-'', m1, m2, CHR ''-'', d1, d2]"
    and dg: "is_digit y1" "is_digit y2" "is_digit y3" "is_digit y4"
      "is_digit m1" "is_digit m2" "is_digit d1" "is_digit d2"
    by (auto simp: is_iso_date_def matches_Cons2 matches_Nil2)
  show thesis
    by (rule that [of "[y1, y2, y3, y4]" "[m1, m2]" "[d1, d2]"]) (simp_all add: s dg)
qed

lemma clock_time_parts:
  assumes "is_clock_time s"
  obtains H M where "s = H @ CHR '':'' # M"
    and "length H = 2" and "length M = 2"
    and "list_all is_digit H" and "list_all is_digit M"
proof -
  from assms obtain h1 h2 m1 m2 where
    s: "s = [h1, h2, CHR '':'', m1, m2]"
    and dg: "is_digit h1" "is_digit h2" "is_digit m1" "is_digit m2"
    by (auto simp: is_clock_time_def matches_Cons2 matches_Nil2)
  show thesis
    by (rule that [of "[h1, h2]" "[m1, m2]"]) (simp_all add: s dg)
qed

lemma iso_date_order:
  assumes "is_iso_date a" and "is_iso_date b"
  shows "(a < b) = calendar_lt (calendarDate a) (calendarDate b)"
    and "(a = b) = (calendarDate a = calendarDate b)"
proof -
  from assms(1) obtain Y M D where a: "a = Y @ CHR ''-'' # M @ CHR ''-'' # D"
    and la: "length Y = 4" "length M = 2" "length D = 2"
    and da: "list_all is_digit Y" "list_all is_digit M" "list_all is_digit D"
    by (rule iso_date_parts)
  from assms(2) obtain Y' M' D' where b: "b = Y' @ CHR ''-'' # M' @ CHR ''-'' # D'"
    and lb: "length Y' = 4" "length M' = 2" "length D' = 2"
    and db: "list_all is_digit Y'" "list_all is_digit M'" "list_all is_digit D'"
    by (rule iso_date_parts)
  have ca: "calendarDate a = (decimal Y, decimal M, decimal D)"
    by (simp add: calendarDate_def a la)
  have cb: "calendarDate b = (decimal Y', decimal M', decimal D')"
    by (simp add: calendarDate_def b lb)
  have Y: "(decimal Y < decimal Y') = (Y < Y')" "(decimal Y = decimal Y') = (Y = Y')"
    by (simp_all add: decimal_less decimal_eq la lb da db)
  have M: "(decimal M < decimal M') = (M < M')" "(decimal M = decimal M') = (M = M')"
    by (simp_all add: decimal_less decimal_eq la lb da db)
  have D: "(decimal D < decimal D') = (D < D')" "(decimal D = decimal D') = (D = D')"
    by (simp_all add: decimal_less decimal_eq la lb da db)
  show "(a < b) = calendar_lt (calendarDate a) (calendarDate b)"
    unfolding ca cb by (simp add: Y M D a b append_less_append la lb)
  show "(a = b) = (calendarDate a = calendarDate b)"
    unfolding ca cb by (simp add: Y M D a b la lb)
qed

lemma clock_time_order:
  assumes "is_clock_time a" and "is_clock_time b"
  shows "(a < b) = time_lt (timeOfDay a) (timeOfDay b)"
    and "(a = b) = (timeOfDay a = timeOfDay b)"
proof -
  from assms(1) obtain H M where a: "a = H @ CHR '':'' # M"
    and la: "length H = 2" "length M = 2"
    and da: "list_all is_digit H" "list_all is_digit M"
    by (rule clock_time_parts)
  from assms(2) obtain H' M' where b: "b = H' @ CHR '':'' # M'"
    and lb: "length H' = 2" "length M' = 2"
    and db: "list_all is_digit H'" "list_all is_digit M'"
    by (rule clock_time_parts)
  have ca: "timeOfDay a = (decimal H, decimal M)"
    by (simp add: timeOfDay_def a la)
  have cb: "timeOfDay b = (decimal H', decimal M')"
    by (simp add: timeOfDay_def b lb)
  have H: "(decimal H < decimal H') = (H < H')" "(decimal H = decimal H') = (H = H')"
    by (simp_all add: decimal_less decimal_eq la lb da db)
  have M: "(decimal M < decimal M') = (M < M')" "(decimal M = decimal M') = (M = M')"
    by (simp_all add: decimal_less decimal_eq la lb da db)
  show "(a < b) = time_lt (timeOfDay a) (timeOfDay b)"
    unfolding ca cb by (simp add: H M a b append_less_append la lb)
  show "(a = b) = (timeOfDay a = timeOfDay b)"
    unfolding ca cb by (simp add: H M a b la lb)
qed


subsection \<open>The collation of the examples\<close>

lemma collationWeight_shape:
  assumes "(is_digit c \<and> is_digit d) \<or> c = d"
  shows "(collationWeight c < collationWeight d) = (c < d)"
    and "(collationWeight c = collationWeight d) = (c = d)"
  using assms by (auto simp: collationWeight_def less_char_def)

lemma map_collationWeight_shape:
  assumes "same_shape a b"
  shows "(map collationWeight a < map collationWeight b) = (a < b) \<and>
         (map collationWeight a = map collationWeight b) = (a = b)"
  using assms unfolding same_shape_def
  by (induction a b rule: list_all2_induct) (simp_all add: collationWeight_shape)

lemma collates_digits_punctuationFirst: "collates_digits punctuationFirst"
  unfolding collates_digits_def
proof (intro allI impI)
  fix a b :: string
  assume "same_shape a b"
  then have "(map collationWeight a < map collationWeight b) = (a < b)"
    and "(map collationWeight a = map collationWeight b) = (a = b)"
    by (simp_all add: map_collationWeight_shape)
  then show "positive (punctuationFirst a b) = (b < a) \<and> (punctuationFirst a b = Num 0) = (a = b)"
    by (auto simp: punctuationFirst_def Let_def)
qed

subsection \<open>The comparator on well-formed appointments\<close>

lemma positive_compareAppointments:
  assumes "collates_digits localeCompare" and "well_formed a" and "well_formed b"
  shows "positive (SortCompare (compareAppointments localeCompare) a b) =
     (date b < date a \<or> (date a = date b \<and> start b < start a))"
proof -
  from assms(2,3) have "same_shape (date a) (date b)" and "same_shape (start a) (start b)"
    by (auto simp: well_formed_def is_iso_date_def is_clock_time_def intro: matches_same_shape)
  with assms(1) have d: "positive (localeCompare (date a) (date b)) = (date b < date a)"
      "(localeCompare (date a) (date b) = Num 0) = (date a = date b)"
    and t: "positive (localeCompare (start a) (start b)) = (start b < start a)"
    by (simp_all add: collates_digits_def)
  show ?thesis
    by (auto simp: positive_SortCompare compareAppointments_def Let_def d t)
qed

lemma sorted_sortedAppointments:
  assumes "collates_digits localeCompare" and "list_all well_formed appts"
  shows "sorted_wrt appointment_le (sortedAppointments localeCompare appts)"
  unfolding sortedAppointments_def
proof (rule sorted_array_sort_on [where S = "{apt. well_formed apt}"])
  fix x y z :: Appointment
  show "x \<in> {apt. well_formed apt} \<Longrightarrow> y \<in> {apt. well_formed apt} \<Longrightarrow>
      positive (SortCompare (compareAppointments localeCompare) x y) \<Longrightarrow> appointment_le y x"
    by (auto simp: positive_compareAppointments [OF assms(1)] appointment_le_def)
  show "x \<in> {apt. well_formed apt} \<Longrightarrow> y \<in> {apt. well_formed apt} \<Longrightarrow>
      \<not> positive (SortCompare (compareAppointments localeCompare) x y) \<Longrightarrow> appointment_le x y"
    by (auto simp: positive_compareAppointments [OF assms(1)] appointment_le_def)
  show "appointment_le x y \<Longrightarrow> appointment_le y z \<Longrightarrow> appointment_le x z"
    by (auto simp: appointment_le_def)
  show "set appts \<subseteq> {apt. well_formed apt}"
    using assms(2) by (auto simp: list_all_iff)
qed

lemma appointment_le_upcoming_le:
  assumes "well_formed a" and "well_formed b"
  shows "appointment_le a b = upcoming_le a b"
  using assms
  by (auto simp: well_formed_def appointment_le_def upcoming_le_def time_le_def
      iso_date_order clock_time_order order.order_iff_strict)

lemma date_ge_calendar:
  assumes "is_iso_date today" and "well_formed apt"
  shows "(today \<le> date apt) = calendar_le (calendarDate today) (calendarDate (date apt))"
  using assms
  by (auto simp: well_formed_def calendar_le_def iso_date_order order.order_iff_strict)

subsection \<open>The two lists\<close>

text \<open>
  Claim C3. The appointments are the spec's: the date an ISO calendar date
  \<^verbatim>\<open>YYYY-MM-DD\<close>, the start a zero-padded \<^verbatim>\<open>HH:MM\<close>, and \<open>today\<close> the date part of
  \<^verbatim>\<open>toISOString()\<close>; of the collation of the locale only its order of digits within
  one format is used. When a fetch succeeds with the list \<open>items\<close> on the day \<open>today\<close>,
  what the upcoming view then shows, on whatever day it is rendered, is exactly the
  items whose calendar date is \<open>today\<close> or later, each as often as it came, in ascending
  order of calendar date and, within a date, of time of day.
\<close>

theorem upcoming_filtered_and_sorted:
  assumes "collates_digits localeCompare"
    and "list_all well_formed items"
    and "is_iso_date today"
  shows "case loadAppointments (Resolves (JsonObject True (Items items))) today s of
      Inl err \<Rightarrow> False
    | Inr s' \<Rightarrow>
        (let shown = map fst (UpcomingAppointmentsView localeCompare rendered_on (appointments s'))
         in mset shown = filter_mset (\<lambda>apt. today \<le> date apt) (mset items) \<and>
            mset shown =
              filter_mset (\<lambda>apt. calendar_le (calendarDate today) (calendarDate (date apt)))
                (mset items) \<and>
            sorted_wrt upcoming_le shown)"
proof -
  define kept where "kept = filter (\<lambda>apt. today \<le> date apt) items"
  define shown where "shown = sortedAppointments localeCompare kept"
  from assms(2) have wf_kept: "list_all well_formed kept"
    by (simp add: kept_def list_all_iff)
  have m1: "mset shown = filter_mset (\<lambda>apt. today \<le> date apt) (mset items)"
    by (simp add: shown_def kept_def sortedAppointments_def mset_array_sort)
  have "filter_mset (\<lambda>apt. today \<le> date apt) (mset items) =
      filter_mset (\<lambda>apt. calendar_le (calendarDate today) (calendarDate (date apt))) (mset items)"
  proof (rule filter_mset_cong [OF refl])
    fix apt assume "apt \<in># mset items"
    with assms(2) have "well_formed apt" by (simp add: list_all_iff)
    with assms(3) show "(today \<le> date apt) =
        calendar_le (calendarDate today) (calendarDate (date apt))"
      by (rule date_ge_calendar)
  qed
  with m1 have m2: "mset shown =
      filter_mset (\<lambda>apt. calendar_le (calendarDate today) (calendarDate (date apt))) (mset items)"
    by simp
  have "sorted_wrt appointment_le shown"
    unfolding shown_def using assms(1) wf_kept by (rule sorted_sortedAppointments)
  moreover have "set shown = set kept"
    by (simp add: shown_def sortedAppointments_def set_array_sort)
  ultimately have srt: "sorted_wrt upcoming_le shown"
    using wf_kept
    by (auto simp: list_all_iff appointment_le_upcoming_le elim!: sorted_wrt_mono_rel [rotated])
  have "loadAppointments (Resolves (JsonObject True (Items items))) today s =
      Inr (s\<lparr>appointments := kept\<rparr>)"
    by (simp add: loadAppointments_def kept_def)
  moreover have "map fst (UpcomingAppointmentsView localeCompare rendered_on kept) = shown"
    by (simp add: UpcomingAppointmentsView_def shown_def comp_def)
  ultimately show ?thesis
    using m1 m2 srt by simp
qed

theorem upcoming_filtered_and_sorted_witness:
  "let a9 = \<lparr>apt_id = ''1'', apt_title = ''past'', date = ''2024-06-09'', start = ''08:00'',
              durationMin = 30\<rparr>;
       a10 = \<lparr>apt_id = ''2'', apt_title = ''late'', date = ''2024-06-10'', start = ''14:00'',
              durationMin = 30\<rparr>;
       a11 = \<lparr>apt_id = ''3'', apt_title = ''next'', date = ''2024-06-11'', start = ''07:30'',
              durationMin = 45\<rparr>;
       b10 = \<lparr>apt_id = ''4'', apt_title = ''early'', date = ''2024-06-10'', start = ''09:00'',
              durationMin = 60\<rparr>
   in collates_digits punctuationFirst \<and> list_all well_formed [a11, a9, a10, b10] \<and>
      is_iso_date ''2024-06-10'' \<and>
      (case loadAppointments (Resolves (JsonObject True (Items [a11, a9, a10, b10])))
              ''2024-06-10'' (initial [] []) of
         Inl err \<Rightarrow> False
       | Inr s' \<Rightarrow>
           map fst (UpcomingAppointmentsView punctuationFirst ''2024-06-12'' (appointments s')) =
           [b10, a10, a11]) \<and>
      calendarDate ''2024-06-10'' = (2024, 6, 10) \<and> timeOfDay ''09:00'' = (9, 0) \<and>
      calendar_le (2024, 6, 10) (calendarDate (date a11)) \<and>
      \<not> calendar_le (2024, 6, 10) (calendarDate (date a9)) \<and>
      sorted_wrt upcoming_le [b10, a10, a11] \<and>
      punctuationFirst ''1:00'' ''10:00'' = Num (- 1)"
  using upcoming_filtered_and_sorted [OF collates_digits_punctuationFirst, where items =
      "[\<lparr>apt_id = ''3'', apt_title = ''next'', date = ''2024-06-11'', start = ''07:30'',
          durationMin = 45\<rparr>,
        \<lparr>apt_id = ''1'', apt_title = ''past'', date = ''2024-06-09'', start = ''08:00'',
          durationMin = 30\<rparr>,
        \<lparr>apt_id = ''2'', apt_title = ''late'', date = ''2024-06-10'', start = ''14:00'',
          durationMin = 30\<rparr>,
        \<lparr>apt_id = ''4'', apt_title = ''early'', date = ''2024-06-10'', start = ''09:00'',
          durationMin = 60\<rparr>]"
      and today = "''2024-06-10''" and s = "initial [] []" and rendered_on = "''2024-06-12''"]
    collates_digits_punctuationFirst
  by (simp add: loadAppointments_def UpcomingAppointmentsView_def sortedAppointments_def
      SortCompare_def compareAppointments_def punctuationFirst_def collationWeight_def
      initial_def well_formed_def is_iso_date_def is_clock_time_def is_digit_def
      calendarDate_def timeOfDay_def decimal_def digitVal_def
      upcoming_le_def calendar_le_def time_le_def)

text \<open>
  Claim C4. The urgent view shows the todos it is handed (the ones not done), each once
  per occurrence, in ascending order of priority rank, where high is 0, medium 1 and
  low 2, and within a rank in ascending order of due time, a todo without a due time
  after every todo of its rank that has one. Handed no todo it shows the placeholder.
\<close>

theorem urgent_sorted_by_rank_then_due:
  "(case UrgentTodosView (upcomingUrgent s) of
      None \<Rightarrow> upcomingUrgent s = []
    | Some shown \<Rightarrow>
        mset shown = filter_mset (\<lambda>t. \<not> todo_done t) (mset (urgentTodos s)) \<and>
        sorted_wrt urgent_le shown) \<and>
   (case UrgentTodosView todos of
      None \<Rightarrow> todos = []
    | Some shown \<Rightarrow> mset shown = mset todos \<and> sorted_wrt urgent_le shown) \<and>
   priorityRank high = 0 \<and> priorityRank medium = 1 \<and> priorityRank low = 2 \<and>
   due_le (Some t) None \<and> \<not> due_le None (Some t)"
  by (simp add: UrgentTodosView_def upcomingUrgent_def mset_array_sort sorted_urgent)

theorem urgent_sorted_by_rank_then_due_witness:
  "let l1 = \<lparr>todo_id = ''a'', todo_title = ''low'', todo_done = False, priority = low,
              dueAt = Some 2000\<rparr>;
       h = \<lparr>todo_id = ''b'', todo_title = ''high, no due time'', todo_done = False,
              priority = high, dueAt = None\<rparr>;
       h0 = \<lparr>todo_id = ''c'', todo_title = ''high'', todo_done = False, priority = high,
              dueAt = Some 1000\<rparr>
   in UrgentTodosView [l1, h, h0] = Some [h0, h, l1] \<and>
      sorted_wrt urgent_le [h0, h, l1] \<and> UrgentTodosView [] = None"
  using urgent_sorted_by_rank_then_due [where s = "initial [] []" and todos =
      "[\<lparr>todo_id = ''a'', todo_title = ''low'', todo_done = False, priority = low,
          dueAt = Some 2000\<rparr>,
        \<lparr>todo_id = ''b'', todo_title = ''high, no due time'', todo_done = False,
          priority = high, dueAt = None\<rparr>,
        \<lparr>todo_id = ''c'', todo_title = ''high'', todo_done = False, priority = high,
          dueAt = Some 1000\<rparr>]" and t = 0]
  by (simp add: UrgentTodosView_def SortCompare_def compareUrgent_def urgent_le_def)

text \<open>
  Claim C5. When the fetch fails (the request or the parsing of the body rejects, the
  body is null, its \<open>ok\<close> is not truthy, or its \<open>items\<close> is not an array),
  \<open>loadAppointments\<close> still fulfils, no error leaving it, and the appointments of the
  page are the ones it had.
\<close>

theorem fetch_failure_keeps_appointments:
  assumes "fetch_failed outcome"
  shows "(case loadAppointments outcome today s of
            Inl err \<Rightarrow> False
          | Inr s' \<Rightarrow> appointments s' = appointments s) \<and>
         appointments (step (AppointmentsSettled outcome today) s) = appointments s"
  using assms
  by (induction outcome rule: fetch_failed.induct) (simp_all add: loadAppointments_def)

theorem fetch_failure_keeps_appointments_witness:
  "let a = \<lparr>apt_id = ''1'', apt_title = ''kept'', date = ''2024-06-10'', start = ''09:00'',
             durationMin = 30\<rparr>;
       b = \<lparr>apt_id = ''2'', apt_title = ''new'', date = ''2024-06-12'', start = ''10:00'',
             durationMin = 30\<rparr>;
       s = run [PressDigit 3, PressDigit 3, PressDigit 3,
                AppointmentsSettled (Resolves (JsonObject True (Items [a]))) ''2024-06-10'']
             (initial [] []);
       failure = Resolves (JsonObject False (Items [b]))
   in appointments s = [a] \<and> fetch_failed failure \<and>
      appointments (step (AppointmentsSettled failure ''2024-06-11'') s) = [a] \<and>
      appointments (step (AppointmentsSettled FetchRejects ''2024-06-11'') s) = [a]"
  using fetch_failure_keeps_appointments [where outcome =
      "Resolves (JsonObject False (Items [\<lparr>apt_id = ''2'', apt_title = ''new'',
         date = ''2024-06-12'', start = ''10:00'', durationMin = 30\<rparr>]))"
      and today = "''2024-06-11''" and s =
      "run [PressDigit 3, PressDigit 3, PressDigit 3,
            AppointmentsSettled (Resolves (JsonObject True (Items
              [\<lparr>apt_id = ''1'', apt_title = ''kept'', date = ''2024-06-10'', start = ''09:00'',
                 durationMin = 30\<rparr>]))) ''2024-06-10'']
         (initial [] [])"]
  by (simp add: gate_defs loadAppointments_def)

text \<open>
  Claim C10. What the upcoming view shows is a permutation of the list it is handed,
  on whatever day it is rendered and whatever the collation of the locale: rendering
  sorts a copy and filters nothing. The list
  it is handed changes only when a fetch settles, so an appointment that was kept by the
  last fetch is shown after its date has passed, until another fetch replaces the list.
\<close>

theorem view_is_permutation:
  "mset (map fst (UpcomingAppointmentsView localeCompare rendered_on appts)) = mset appts \<and>
   mset (sortedAppointments localeCompare appts) = mset appts \<and>
   ((\<forall>outcome today. e \<noteq> AppointmentsSettled outcome today) \<longrightarrow>
      appointments (step e s) = appointments s)"
proof -
  have "appointments (step e s) = appointments s"
    if "\<forall>outcome today. e \<noteq> AppointmentsSettled outcome today"
    using that
    by (cases e)
      (simp_all add: restoreFromSession_def handleButtonPress_def handleClear_def elapse_def
        fold_timeoutCallback timeoutCallback_def Let_def)
  then show ?thesis
    by (simp add: UpcomingAppointmentsView_def comp_def sortedAppointments_def mset_array_sort)
qed

theorem view_is_permutation_witness:
  "let a = \<lparr>apt_id = ''1'', apt_title = ''kept'', date = ''2024-06-10'', start = ''09:00'',
             durationMin = 30\<rparr>;
       s = run [PressDigit 3, PressDigit 3, PressDigit 3,
                AppointmentsSettled (Resolves (JsonObject True (Items [a]))) ''2024-06-10'']
             (initial [] []);
       s' = step (Elapse 172800000) s
   in appointments s = [a] \<and> appointments s' = [a] \<and>
      UpcomingAppointmentsView punctuationFirst ''2024-06-12'' (appointments s') =
        [(a, OtherDay ''2024-06-10'')] \<and>
      (\<forall>outcome today. Elapse 172800000 \<noteq> AppointmentsSettled outcome today)"
  using view_is_permutation [where localeCompare = punctuationFirst
      and rendered_on = "''2024-06-12''" and appts =
      "[\<lparr>apt_id = ''1'', apt_title = ''kept'', date = ''2024-06-10'', start = ''09:00'',
          durationMin = 30\<rparr>]"
      and e = "Elapse 172800000" and s =
      "run [PressDigit 3, PressDigit 3, PressDigit 3,
            AppointmentsSettled (Resolves (JsonObject True (Items
              [\<lparr>apt_id = ''1'', apt_title = ''kept'', date = ''2024-06-10'', start = ''09:00'',
                 durationMin = 30\<rparr>]))) ''2024-06-10'']
         (initial [] [])"]
  by (simp add: gate_defs loadAppointments_def UpcomingAppointmentsView_def
      sortedAppointments_def)

end
